theory Spec2Isabelle
  imports Complex_Main
begin

section \<open>Python values used by \<open>utils_cv/tracking/plot.py\<close>\<close>

text \<open>
  The only exception the module itself can raise is the \<open>KeyError\<close> of a failed
  subscript (\<open>results[frame_idx]\<close>, \<open>color_map[tid]\<close>); it carries the missing key.
\<close>

datatype py_error = KeyError int

text \<open>
  A Python \<open>dict\<close> keeps its keys in insertion order; assigning to a key that is already
  present replaces the value and leaves the key where it is. It is modelled as the list
  of its items, in that order.
\<close>

type_synonym ('k, 'v) dict = "('k \<times> 'v) list"

fun dict_setitem :: "('k, 'v) dict \<Rightarrow> 'k \<Rightarrow> 'v \<Rightarrow> ('k, 'v) dict" where
  "dict_setitem [] k v = [(k, v)]"
| "dict_setitem ((k', v') # d) k v =
     (if k' = k then (k', v) # d else (k', v') # dict_setitem d k v)"

text \<open>\<open>dict(pairs)\<close>: the pairs are inserted from left to right.\<close>

fun dict_from :: "('k, 'v) dict \<Rightarrow> ('k \<times> 'v) list \<Rightarrow> ('k, 'v) dict" where
  "dict_from d [] = d"
| "dict_from d ((k, v) # kvs) = dict_from (dict_setitem d k v) kvs"

definition dict :: "('k \<times> 'v) list \<Rightarrow> ('k, 'v) dict" where
  "dict kvs = dict_from [] kvs"

text \<open>\<open>d[k]\<close> is \<open>dict_get d k\<close>, with \<open>None\<close> where Python raises \<open>KeyError\<close>.\<close>

definition dict_get :: "('k, 'v) dict \<Rightarrow> 'k \<Rightarrow> 'v option" where
  "dict_get d k = map_of d k"

definition keys :: "('k, 'v) dict \<Rightarrow> 'k list" where
  "keys d = map fst d"

definition values_of :: "('k, 'v) dict \<Rightarrow> 'v list" where
  "values_of d = map snd d"

text \<open>\<open>int(x)\<close> on a float truncates towards zero.\<close>

definition py_int :: "real \<Rightarrow> int" where
  "py_int x = (if 0 \<le> x then \<lfloor>x\<rfloor> else \<lceil>x\<rceil>)"

text \<open>\<open>round(x)\<close> with one argument rounds to the nearest integer, ties to the even one.\<close>

definition py_round :: "real \<Rightarrow> int" where
  "py_round x =
     (let f = \<lfloor>x\<rfloor>; d = x - of_int f
      in if d < 1 / 2 then f
         else if 1 / 2 < d then f + 1
         else if even f then f else f + 1)"

text \<open>\<open>str(n)\<close> on an integer: its decimal digits, with a minus sign when negative.\<close>

fun digits :: "nat \<Rightarrow> string" where
  "digits n =
     (if n < 10 then [char_of (48 + n)]
      else digits (n div 10) @ [char_of (48 + n mod 10)])"

declare digits.simps [simp del]

definition str :: "int \<Rightarrow> string" where
  "str n = (if n < 0 then CHR ''-'' # digits (nat (- n)) else digits (nat n))"

section \<open>Colours: \<open>_compute_color_for_all_labels\<close>\<close>

type_synonym color = "int \<times> int \<times> int"

definition palette :: "int \<times> int \<times> int" where
  "palette = (2 ^ 11 - 1, 2 ^ 15 - 1, 2 ^ 20 - 1)"

text \<open>
  The body of the loop, \<open>[int((p * ((i + 1) ** 5 - i + 1)) % 255) for p in palette]\<close>,
  for one index \<open>i\<close>. Python integers are unbounded and \<open>%\<close> with a positive modulus is
  never negative, as \<open>mod\<close> on \<open>int\<close>.
\<close>

definition color_of_index :: "int \<Rightarrow> color" where
  "color_of_index i =
     (case palette of (p1, p2, p3) \<Rightarrow>
        ((p1 * ((i + 1) ^ 5 - i + 1)) mod 255,
         (p2 * ((i + 1) ^ 5 - i + 1)) mod 255,
         (p3 * ((i + 1) ^ 5 - i + 1)) mod 255))"

definition color_list_of :: "int list \<Rightarrow> color list" where
  "color_list_of id_list =
     (let id_list2 = map int [0..<length id_list]
      in map color_of_index id_list2)"

definition compute_color_for_all_labels :: "int list \<Rightarrow> (int, color) dict" where
  "compute_color_for_all_labels id_list = dict (zip id_list (color_list_of id_list))"

section \<open>Frames and boxes\<close>

text \<open>
  Modelled from the spec: the class \<open>TrackingBbox\<close> of \<open>utils_cv/tracking/bbox.py\<close>,
  of which this module reads the fields \<open>track_id\<close>, \<open>left\<close>, \<open>top\<close>, \<open>right\<close> and
  \<open>bottom\<close>. The coordinates are finite floating-point numbers, hence reals
  (\<open>top\<close> is written \<open>top_edge\<close>: the name is taken in HOL).
\<close>

record TrackingBbox =
  left :: real
  top_edge :: real
  right :: real
  bottom :: real
  frame_id :: int
  track_id :: int

text \<open>
  OpenCV is outside the repository. A frame is the decoded picture \<open>raw\<close> together
  with the drawing calls made on it so far, in order: \<open>cv2.rectangle\<close> and
  \<open>cv2.putText\<close> change the array in place, which the model records by appending the
  call with its arguments.
\<close>

datatype cv2_call =
    Rectangle "int \<times> int" "int \<times> int" color int
  | PutText string "int \<times> int" int int color int

record 'px image =
  raw :: 'px
  drawn :: "cv2_call list"

definition FONT_HERSHEY_SIMPLEX :: int where
  "FONT_HERSHEY_SIMPLEX = 0"

definition rectangle ::
  "'px image \<Rightarrow> int \<times> int \<Rightarrow> int \<times> int \<Rightarrow> color \<Rightarrow> int \<Rightarrow> 'px image" where
  "rectangle im pt1 pt2 col thickness =
     im\<lparr>drawn := drawn im @ [Rectangle pt1 pt2 col thickness]\<rparr>"

definition putText ::
  "'px image \<Rightarrow> string \<Rightarrow> int \<times> int \<Rightarrow> int \<Rightarrow> int \<Rightarrow> color \<Rightarrow> int \<Rightarrow> 'px image" where
  "putText im text org font scale col thickness =
     im\<lparr>drawn := drawn im @ [PutText text org font scale col thickness]\<rparr>"

section \<open>\<open>_draw_boxes\<close>\<close>

text \<open>
  The loop \<open>for tid, bb in tracks.items()\<close>. \<open>getTextSize\<close> stands for
  \<open>cv2.getTextSize(label, cv2.FONT_HERSHEY_SIMPLEX, 1, 1)[0]\<close>, the (width, height) of
  the label, which OpenCV computes. \<open>color_map[tid]\<close> raises \<open>KeyError\<close> when the
  identifier has no colour.
\<close>

fun draw_items ::
  "(string \<Rightarrow> int \<times> int) \<Rightarrow> 'px image \<Rightarrow> (int, TrackingBbox) dict \<Rightarrow> (int, color) dict
     \<Rightarrow> py_error + 'px image" where
  "draw_items getTextSize im [] color_map = Inr im"
| "draw_items getTextSize im ((tid, bb) # rest) color_map =
     (let l = py_round (left bb);
          t = py_round (top_edge bb);
          r = py_round (right bb);
          b = py_round (bottom bb)
      in case dict_get color_map tid of
           None \<Rightarrow> Inl (KeyError tid)
         | Some col \<Rightarrow>
             (let label = str tid;
                  t_size = getTextSize label;
                  im1 = rectangle im (l, t) (r, b) col 3;
                  im2 = putText im1 (''id_'' @ label) (l, t + snd t_size - 30)
                          FONT_HERSHEY_SIMPLEX 1 col 3
              in draw_items getTextSize im2 rest color_map))"

definition draw_boxes ::
  "(string \<Rightarrow> int \<times> int) \<Rightarrow> 'px image \<Rightarrow> TrackingBbox list \<Rightarrow> (int, color) dict
     \<Rightarrow> py_error + 'px image" where
  "draw_boxes getTextSize im cur_tracks color_map =
     (let cur_ids = map track_id cur_tracks;
          tracks = dict (zip cur_ids cur_tracks)
      in draw_items getTextSize im tracks color_map)"

section \<open>\<open>_write_video\<close> and \<open>plot_results\<close>\<close>

text \<open>
  A readable video file: its frame size, its frame rate and the frames it decodes to.
  The file system \<open>fs\<close> lists the paths that \<open>cv2.VideoCapture.open\<close> can open. A
  capture that failed to open is \<open>None\<close>: OpenCV raises nothing, \<open>get\<close> answers \<open>0.0\<close>
  for every property and \<open>grab\<close> answers \<open>False\<close>. \<open>get\<close> answers with a float.
\<close>

record 'px video_file =
  frame_width :: int
  frame_height :: int
  fps :: real
  frames :: "'px list"

type_synonym 'px VideoCapture = "'px video_file option"

definition VideoCapture_open :: "(string \<times> 'px video_file) list \<Rightarrow> string \<Rightarrow> 'px VideoCapture" where
  "VideoCapture_open fs input_video = map_of fs input_video"

definition get_CAP_PROP_FRAME_WIDTH :: "'px VideoCapture \<Rightarrow> real" where
  "get_CAP_PROP_FRAME_WIDTH video = (case video of None \<Rightarrow> 0 | Some v \<Rightarrow> of_int (frame_width v))"

definition get_CAP_PROP_FRAME_HEIGHT :: "'px VideoCapture \<Rightarrow> real" where
  "get_CAP_PROP_FRAME_HEIGHT video = (case video of None \<Rightarrow> 0 | Some v \<Rightarrow> of_int (frame_height v))"

definition get_CAP_PROP_FPS :: "'px VideoCapture \<Rightarrow> real" where
  "get_CAP_PROP_FPS video = (case video of None \<Rightarrow> 0 | Some v \<Rightarrow> fps v)"

text \<open>
  The frames that the calls \<open>video.grab()\<close>, \<open>video.retrieve()\<close> hand out until
  \<open>grab\<close> answers \<open>False\<close>: each a fresh array with nothing drawn on it. A frame
  that was grabbed is taken to be retrieved; decoding failures are OpenCV's and are
  not modelled.
\<close>

definition grabbed :: "'px VideoCapture \<Rightarrow> 'px image list" where
  "grabbed video =
     (case video of None \<Rightarrow> [] | Some v \<Rightarrow> map (\<lambda>f. \<lparr>raw = f, drawn = []\<rparr>) (frames v))"

text \<open>
  The writer, as constructed by \<open>cv2.VideoWriter(filename, fourcc, fps, frameSize)\<close>,
  with the frames passed to \<open>write\<close>, in order.
\<close>

record 'px VideoWriter =
  filename :: string
  fourcc :: int
  w_fps :: int
  frameSize :: "int \<times> int"
  written :: "'px image list"

definition VideoWriter_fourcc :: "char \<Rightarrow> char \<Rightarrow> char \<Rightarrow> char \<Rightarrow> int" where
  "VideoWriter_fourcc c1 c2 c3 c4 =
     of_char c1 + 2 ^ 8 * of_char c2 + 2 ^ 16 * of_char c3 + 2 ^ 24 * of_char c4"

definition writer_write :: "'px VideoWriter \<Rightarrow> 'px image \<Rightarrow> 'px VideoWriter" where
  "writer_write writer im = writer\<lparr>written := written writer @ [im]\<rparr>"

text \<open>
  The loop \<open>while video.grab()\<close> over the frames still to come, with \<open>frame_idx\<close> and
  the writer as its state. An exception ends the loop; the writer is returned as the
  exception leaves it.
\<close>

fun write_frames ::
  "(string \<Rightarrow> int \<times> int) \<Rightarrow> (int, TrackingBbox list) dict \<Rightarrow> (int, color) dict
     \<Rightarrow> 'px image list \<Rightarrow> int \<Rightarrow> 'px VideoWriter \<Rightarrow> py_error option \<times> 'px VideoWriter" where
  "write_frames getTextSize results color_map [] frame_idx writer = (None, writer)"
| "write_frames getTextSize results color_map (cur_image # rest) frame_idx writer =
     (case dict_get results frame_idx of
        None \<Rightarrow> (Some (KeyError frame_idx), writer)
      | Some cur_tracks \<Rightarrow>
          (if length cur_tracks > 0
           then (case draw_boxes getTextSize cur_image cur_tracks color_map of
                   Inl e \<Rightarrow> (Some e, writer)
                 | Inr cur_image' \<Rightarrow>
                     write_frames getTextSize results color_map rest (frame_idx + 1)
                       (writer_write writer cur_image'))
           else write_frames getTextSize results color_map rest (frame_idx + 1)
                  (writer_write writer cur_image)))"

text \<open>
  \<open>list(set(ids))\<close> enumerates the distinct identifiers in an order that Python leaves
  open; \<open>set_order\<close> stands for it.
\<close>

definition is_set_order :: "(int list \<Rightarrow> int list) \<Rightarrow> bool" where
  "is_set_order set_order \<longleftrightarrow> (\<forall>xs. distinct (set_order xs) \<and> set (set_order xs) = set xs)"

definition write_video ::
  "(int list \<Rightarrow> int list) \<Rightarrow> (string \<Rightarrow> int \<times> int) \<Rightarrow> (string \<times> 'px video_file) list
     \<Rightarrow> (int, TrackingBbox list) dict \<Rightarrow> string \<Rightarrow> string
     \<Rightarrow> py_error option \<times> 'px VideoWriter" where
  "write_video set_order getTextSize fs results input_video output_video =
     (let video = VideoCapture_open fs input_video;
          image_width = py_int (get_CAP_PROP_FRAME_WIDTH video);
          image_height = py_int (get_CAP_PROP_FRAME_HEIGHT video);
          fourcc = VideoWriter_fourcc CHR ''M'' CHR ''P'' CHR ''4'' CHR ''V'';
          frame_rate = py_int (get_CAP_PROP_FPS video);
          writer = \<lparr>filename = output_video, fourcc = fourcc, w_fps = frame_rate,
                    frameSize = (image_width, image_height), written = []\<rparr>;
          unique_ids = set_order (map track_id (concat (values_of results)));
          color_map = compute_color_for_all_labels unique_ids
      in write_frames getTextSize results color_map (grabbed video) 0 writer)"

text \<open>
  \<open>plot_results\<close> passes \<open>OrderedDict(sorted(results.items()))\<close> on, prints its message
  and returns the output path, unless \<open>_write_video\<close> raised. The result is the
  outcome, the writer and the lines printed.
\<close>

definition plot_results ::
  "(int list \<Rightarrow> int list) \<Rightarrow> (string \<Rightarrow> int \<times> int) \<Rightarrow> (string \<times> 'px video_file) list
     \<Rightarrow> (int, TrackingBbox list) dict \<Rightarrow> string \<Rightarrow> string
     \<Rightarrow> (py_error + string) \<times> 'px VideoWriter \<times> string list" where
  "plot_results set_order getTextSize fs results input_video output_video =
     (case write_video set_order getTextSize fs (dict (sort_key fst results))
             input_video output_video of
        (Some e, writer) \<Rightarrow> (Inl e, writer, [])
      | (None, writer) \<Rightarrow>
          (Inr output_video, writer, [''Output saved to '' @ output_video @ ''.'']))"

section \<open>What ends up on a frame\<close>

text \<open>
  The statements below describe the outcome of the drawing in terms that do not go
  through a dictionary. \<open>first_seen\<close> lists the distinct elements of a list in the order
  of their first occurrence; \<open>box_calls\<close> is the rectangle and the label drawn for one
  box; \<open>annotated\<close> is a frame with, for each identifier among its boxes, the drawing
  of the last box that carries the identifier.
\<close>

fun first_seen :: "'a list \<Rightarrow> 'a list" where
  "first_seen [] = []"
| "first_seen (x # xs) = x # removeAll x (first_seen xs)"

definition box_calls ::
  "(string \<Rightarrow> int \<times> int) \<Rightarrow> (int, color) dict \<Rightarrow> int \<Rightarrow> TrackingBbox \<Rightarrow> cv2_call list" where
  "box_calls getTextSize color_map tid bb =
     (case dict_get color_map tid of
        None \<Rightarrow> []
      | Some col \<Rightarrow>
          [Rectangle (py_round (left bb), py_round (top_edge bb))
             (py_round (right bb), py_round (bottom bb)) col 3,
           PutText (''id_'' @ str tid)
             (py_round (left bb), py_round (top_edge bb) + snd (getTextSize (str tid)) - 30)
             FONT_HERSHEY_SIMPLEX 1 col 3])"

definition last_box :: "TrackingBbox list \<Rightarrow> int \<Rightarrow> TrackingBbox" where
  "last_box cur_tracks tid = last (filter (\<lambda>bb. track_id bb = tid) cur_tracks)"

definition annotated ::
  "(string \<Rightarrow> int \<times> int) \<Rightarrow> (int, color) dict \<Rightarrow> 'px image \<Rightarrow> TrackingBbox list
     \<Rightarrow> 'px image" where
  "annotated getTextSize color_map im cur_tracks =
     im\<lparr>drawn := drawn im @
          concat (map (\<lambda>tid. box_calls getTextSize color_map tid (last_box cur_tracks tid))
                    (first_seen (map track_id cur_tracks)))\<rparr>"

text \<open>
  The frames of a stretch of video, each annotated with the boxes listed under its
  index. The facts below use it only for indices that are keys of the results.
\<close>

fun annotated_frames ::
  "(string \<Rightarrow> int \<times> int) \<Rightarrow> (int, TrackingBbox list) dict \<Rightarrow> (int, color) dict
     \<Rightarrow> 'px image list \<Rightarrow> int \<Rightarrow> 'px image list" where
  "annotated_frames getTextSize results color_map [] frame_idx = []"
| "annotated_frames getTextSize results color_map (im # rest) frame_idx =
     annotated getTextSize color_map im
       (case dict_get results frame_idx of None \<Rightarrow> [] | Some cur_tracks \<Rightarrow> cur_tracks)
     # annotated_frames getTextSize results color_map rest (frame_idx + 1)"

section \<open>Sample inputs\<close>

text \<open>
  A text size as OpenCV reports it for the simplex font at scale 1 (22 pixels high), a
  two-frame video at 29.97 frames per second, whose frames are numbered, and tracking
  results for it: two boxes with identifier 7 on frame 0, none on frame 1.
\<close>

definition sample_getTextSize :: "string \<Rightarrow> int \<times> int" where
  "sample_getTextSize label = (20 * int (length label), 22)"

definition sample_video :: "nat video_file" where
  "sample_video = \<lparr>frame_width = 640, frame_height = 480, fps = 2997 / 100, frames = [100, 101]\<rparr>"

definition sample_fs :: "(string \<times> nat video_file) list" where
  "sample_fs = [(''in.mp4'', sample_video)]"

definition box_a :: TrackingBbox where
  "box_a = \<lparr>left = 10, top_edge = 20, right = 30, bottom = 40, frame_id = 0, track_id = 7\<rparr>"

definition box_b :: TrackingBbox where
  "box_b = \<lparr>left = 23 / 2, top_edge = 41 / 2, right = 30, bottom = 41, frame_id = 0, track_id = 7\<rparr>"

definition sample_results :: "(int, TrackingBbox list) dict" where
  "sample_results = [(0, [box_a, box_b]), (1, [])]"


section \<open>Facts about dictionaries\<close>

lemma map_of_dict_setitem: "map_of (dict_setitem d k v) = (map_of d)(k \<mapsto> v)"
  by (induction d k v rule: dict_setitem.induct) (auto simp: fun_eq_iff)

lemma keys_dict_setitem:
  "map fst (dict_setitem d k v) = (if k \<in> fst ` set d then map fst d else map fst d @ [k])"
  by (induction d k v rule: dict_setitem.induct) auto

lemma distinct_dict_setitem:
  "distinct (map fst d) \<Longrightarrow> distinct (map fst (dict_setitem d k v))"
  by (simp add: keys_dict_setitem)

lemma dict_setitem_fresh: "k \<notin> fst ` set d \<Longrightarrow> dict_setitem d k v = d @ [(k, v)]"
  by (induction d k v rule: dict_setitem.induct) auto

lemma distinct_dict_from:
  "distinct (map fst d) \<Longrightarrow> distinct (map fst (dict_from d kvs))"
  by (induction d kvs rule: dict_from.induct) (simp_all add: distinct_dict_setitem)

lemma set_keys_dict_from: "fst ` set (dict_from d kvs) = fst ` set d \<union> fst ` set kvs"
proof (induction d kvs rule: dict_from.induct)
  case (1 d)
  show ?case by simp
next
  case (2 d k v kvs)
  have "fst ` set (dict_setitem d k v) = insert k (fst ` set d)"
    using keys_dict_setitem [of d k v]
    by (metis (no_types) insert_absorb list.set_map set_append list.simps(15) Un_insert_right
        sup_bot.right_neutral empty_set)
  with 2 show ?case by auto
qed

lemma map_of_dict_from: "map_of (dict_from d kvs) = map_of d ++ map_of (rev kvs)"
proof (induction d kvs rule: dict_from.induct)
  case (1 d)
  show ?case by simp
next
  case (2 d k v kvs)
  have "map_of (dict_from d ((k, v) # kvs)) = (map_of d)(k \<mapsto> v) ++ map_of (rev kvs)"
    using 2 by (simp only: dict_from.simps map_of_dict_setitem)
  also have "\<dots> = map_of d ++ map_of (rev ((k, v) # kvs))"
    by (rule ext) (simp add: map_add_def split: option.split)
  finally show ?case .
qed

lemma dict_from_distinct_fresh:
  "distinct (map fst kvs) \<Longrightarrow> fst ` set d \<inter> fst ` set kvs = {} \<Longrightarrow> dict_from d kvs = d @ kvs"
proof (induction d kvs rule: dict_from.induct)
  case (1 d)
  show ?case by simp
next
  case (2 d k v kvs)
  from 2(3) have fresh: "k \<notin> fst ` set d" by auto
  have "fst ` set (d @ [(k, v)]) \<inter> fst ` set kvs = {}"
    using 2(2,3) by (auto simp: image_iff)
  with 2 fresh show ?case by (simp add: dict_setitem_fresh)
qed

lemma distinct_keys_dict: "distinct (map fst (dict kvs))"
  by (simp add: dict_def distinct_dict_from)

lemma set_keys_dict: "fst ` set (dict kvs) = fst ` set kvs"
  by (simp add: dict_def set_keys_dict_from)

lemma map_of_dict: "map_of (dict kvs) = map_of (rev kvs)"
  by (simp add: dict_def map_of_dict_from)

lemma dict_distinct: "distinct (map fst kvs) \<Longrightarrow> dict kvs = kvs"
  using dict_from_distinct_fresh [of kvs "[]"] by (simp add: dict_def)

section \<open>Facts about the colours\<close>

lemma length_color_list_of: "length (color_list_of ids) = length ids"
  by (simp add: color_list_of_def)

lemma color_list_of_nth: "i < length ids \<Longrightarrow> color_list_of ids ! i = color_of_index (int i)"
  by (simp add: color_list_of_def)

lemma color_map_distinct:
  "distinct ids \<Longrightarrow> compute_color_for_all_labels ids = zip ids (color_list_of ids)"
  by (simp add: compute_color_for_all_labels_def dict_distinct length_color_list_of)

lemma color_map_nth:
  assumes "distinct ids" and "i < length ids"
  shows "dict_get (compute_color_for_all_labels ids) (ids ! i) = Some (color_of_index (int i))"
proof -
  have "map_of (zip ids (color_list_of ids)) (ids ! i) = Some (color_list_of ids ! i)"
    using assms by (intro map_of_zip_nth) (simp_all add: length_color_list_of)
  with assms show ?thesis
    by (simp add: dict_get_def color_map_distinct color_list_of_nth)
qed

lemma color_of_index_0: "color_of_index 0 = (14, 254, 30)"
  by (simp add: color_of_index_def palette_def)



lemma color_of_index_3: "color_of_index 3 = (14, 254, 30)"
  by (simp add: color_of_index_def palette_def)

lemma color_of_index_range:
  "color_of_index i = (r, g, b) \<Longrightarrow> 0 \<le> r \<and> r \<le> 254 \<and> 0 \<le> g \<and> g \<le> 254 \<and> 0 \<le> b \<and> b \<le> 254"
  by (auto simp: color_of_index_def palette_def)

lemma color_map_entry:
  assumes "dict_get (compute_color_for_all_labels ids) k = Some c"
  shows "k \<in> set ids \<and> (\<exists>i. c = color_of_index i)"
proof -
  from assms have "(k, c) \<in> set (zip ids (color_list_of ids))"
    by (auto simp: dict_get_def compute_color_for_all_labels_def map_of_dict dest: map_of_SomeD)
  then have "k \<in> set ids" and "c \<in> set (color_list_of ids)"
    by (auto dest: set_zip_leftD set_zip_rightD)
  then show ?thesis by (auto simp: color_list_of_def)
qed


section \<open>Properties of \<open>_compute_color_for_all_labels\<close>\<close>

text \<open>
  Claim C3, as stated, does not hold: with the identifiers enumerated as \<open>[5, 9]\<close>,
  identifier \<open>5\<close> does not receive \<open>(14, 44, 0)\<close>.
\<close>

theorem color_of_5_in_5_9_is_not_14_44_0: "dict_get (compute_color_for_all_labels [5, 9]) 5 \<noteq> Some (14, 44, 0)"
  by (simp add: dict_get_def color_map_distinct color_list_of_def color_of_index_0 upt_rec)

text \<open>
  Claim C3, amended: with the identifiers enumerated as \<open>[5, 9]\<close>, identifier \<open>5\<close>
  (index 0) receives \<open>(2047*2 mod 255, 32767*2 mod 255, 1048575*2 mod 255)\<close>, which is
  \<open>(14, 254, 30)\<close>.
\<close>

theorem color_of_5_in_5_9:
  "dict_get (compute_color_for_all_labels [5, 9]) 5
     = Some (2047 * 2 mod 255, 32767 * 2 mod 255, 1048575 * 2 mod 255)
   \<and> (2047 * 2 mod 255, 32767 * 2 mod 255, 1048575 * 2 mod 255) = (14 :: int, 254 :: int, 30 :: int)"
  by (simp add: dict_get_def color_map_distinct color_list_of_def color_of_index_0 upt_rec)




text \<open>
  Claim C7: the colour map has exactly one entry for each identifier of the input and
  none for any other identifier, and the empty input gives the empty map. (It holds for
  every list; for distinct identifiers the number of entries is the length of the list.)
\<close>

theorem color_map_domain:
  "distinct (keys (compute_color_for_all_labels ids))
   \<and> set (keys (compute_color_for_all_labels ids)) = set ids
   \<and> dom (dict_get (compute_color_for_all_labels ids)) = set ids
   \<and> length (compute_color_for_all_labels ids) = card (set ids)
   \<and> compute_color_for_all_labels [] = []"
proof -
  let ?cm = "compute_color_for_all_labels ids"
  have d: "distinct (map fst ?cm)"
    by (simp add: compute_color_for_all_labels_def distinct_keys_dict)
  have "fst ` set ?cm = fst ` set (zip ids (color_list_of ids))"
    by (simp add: compute_color_for_all_labels_def set_keys_dict)
  also have "\<dots> = set (map fst (zip ids (color_list_of ids)))" by simp
  also have "\<dots> = set ids" by (simp add: length_color_list_of)
  finally have s: "fst ` set ?cm = set ids" .
  have "dom (dict_get ?cm) = fst ` set ?cm"
    by (simp add: dict_get_def [abs_def] dom_map_of_conv_image_fst)
  with s have m: "dom (dict_get ?cm) = set ids" by simp
  have "length ?cm = length (map fst ?cm)" by simp
  also have "\<dots> = card (set (map fst ?cm))" using d by (simp only: distinct_card)
  also have "\<dots> = card (set ids)" using s by simp
  finally have l: "length ?cm = card (set ids)" .
  have e: "compute_color_for_all_labels [] = []"
    by (simp add: compute_color_for_all_labels_def dict_def color_list_of_def)
  from d s m l e show ?thesis by (simp add: keys_def)
qed

text \<open>
  Claim C9: in every list of at least 4 identifiers the colours computed for positions 0
  and 3 are the same, because \<open>((i+1)^5 - i + 1) mod 255\<close> is 2 at \<open>i = 0\<close> and at
  \<open>i = 3\<close>; the identifiers at these positions, two different identifiers of the
  list of unique ids the function is given, both receive that colour.
\<close>

theorem positions_0_and_3_same_color:
  assumes "4 \<le> length ids"
  shows "color_list_of ids ! 0 = color_list_of ids ! 3
         \<and> ((0 + 1) ^ 5 - 0 + 1) mod 255 = (2 :: int)
         \<and> ((3 + 1) ^ 5 - 3 + 1) mod 255 = (2 :: int)
         \<and> (distinct ids \<longrightarrow>
              ids ! 0 \<noteq> ids ! 3
              \<and> dict_get (compute_color_for_all_labels ids) (ids ! 0) = Some (color_list_of ids ! 0)
              \<and> dict_get (compute_color_for_all_labels ids) (ids ! 3) = Some (color_list_of ids ! 3))"
proof -
  from assms have p: "0 < length ids" "3 < length ids" by linarith+
  then have c: "color_list_of ids ! 0 = color_list_of ids ! 3"
    by (simp add: color_list_of_nth color_of_index_0 color_of_index_3)
  have d: "ids ! 0 \<noteq> ids ! 3" if "distinct ids"
    using that p by (simp add: nth_eq_iff_index_eq)
  have m0: "dict_get (compute_color_for_all_labels ids) (ids ! 0) = Some (color_list_of ids ! 0)"
    if "distinct ids"
    using color_map_nth [OF that p(1)] p(1) by (simp add: color_list_of_nth)
  have m3: "dict_get (compute_color_for_all_labels ids) (ids ! 3) = Some (color_list_of ids ! 3)"
    if "distinct ids"
    using color_map_nth [OF that p(2)] p(2) by (simp add: color_list_of_nth)
  from c d m0 m3 show ?thesis by simp
qed

theorem positions_0_and_3_same_color_witness:
  "4 \<le> length [10, 20, 30, 40 :: int] \<and> distinct [10, 20, 30, 40 :: int]
   \<and> dict_get (compute_color_for_all_labels [10, 20, 30, 40]) 10 = Some (14, 254, 30)
   \<and> dict_get (compute_color_for_all_labels [10, 20, 30, 40]) 40 = Some (14, 254, 30)"
proof -
  have "color_list_of [10, 20, 30, 40] ! 0 = (14, 254, 30)"
    by (simp add: color_list_of_nth color_of_index_0)
  with positions_0_and_3_same_color [of "[10, 20, 30, 40]"] show ?thesis by simp
qed

text \<open>
  Claim C10: every channel of every colour in the returned map lies between 0 and 254;
  255 never occurs.
\<close>

theorem color_channels_in_range:
  assumes "dict_get (compute_color_for_all_labels ids) k = Some (r, g, b)"
  shows "0 \<le> r \<and> r \<le> 254 \<and> 0 \<le> g \<and> g \<le> 254 \<and> 0 \<le> b \<and> b \<le> 254"
proof -
  from color_map_entry [OF assms] obtain i where "color_of_index i = (r, g, b)" by auto
  then show ?thesis by (rule color_of_index_range)
qed

theorem color_channels_in_range_witness:
  "dict_get (compute_color_for_all_labels [5, 9]) 5 = Some (14, 254, 30)
   \<and> (0 :: int) \<le> 14 \<and> (14 :: int) \<le> 254 \<and> (0 :: int) \<le> 254 \<and> (254 :: int) \<le> 254
   \<and> (0 :: int) \<le> 30 \<and> (30 :: int) \<le> 254"
proof -
  have e: "dict_get (compute_color_for_all_labels [5, 9]) 5 = Some (14, 254, 30)"
    by (simp add: dict_get_def color_map_distinct color_list_of_def color_of_index_0 upt_rec)
  from e color_channels_in_range [OF e] show ?thesis by simp
qed

section \<open>Facts about the drawing\<close>

lemma set_first_seen: "set (first_seen xs) = set xs"
  by (induction xs) auto

lemma distinct_first_seen: "distinct (first_seen xs)"
  by (induction xs) (auto simp: set_first_seen distinct_removeAll)

lemma keys_dict_from_first_seen:
  "map fst (dict_from d kvs)
     = map fst d @ filter (\<lambda>k. k \<notin> fst ` set d) (first_seen (map fst kvs))"
proof (induction d kvs rule: dict_from.induct)
  case (1 d)
  show ?case by simp
next
  case (2 d k v kvs)
  let ?ks = "first_seen (map fst kvs)"
  show ?case
  proof (cases "k \<in> fst ` set d")
    case True
    then have "filter (\<lambda>k. k \<notin> fst ` set d) (removeAll k ?ks) = filter (\<lambda>k. k \<notin> fst ` set d) ?ks"
      by (auto simp: removeAll_filter_not_eq intro: filter_cong)
    moreover have "fst ` set (dict_setitem d k v) = fst ` set d"
      using True keys_dict_setitem [of d k v] by (metis list.set_map)
    ultimately show ?thesis using 2 True by (simp add: keys_dict_setitem)
  next
    case False
    have "fst ` set (dict_setitem d k v) = insert k (fst ` set d)"
      using False by (simp add: dict_setitem_fresh)
    moreover have "filter (\<lambda>x. x \<noteq> k \<and> x \<notin> fst ` set d) ?ks
        = filter (\<lambda>k. k \<notin> fst ` set d) (removeAll k ?ks)"
      by (auto simp: removeAll_filter_not_eq intro: filter_cong)
    ultimately show ?thesis using 2 False by (simp add: keys_dict_setitem)
  qed
qed

lemma keys_dict: "map fst (dict kvs) = first_seen (map fst kvs)"
  by (simp add: dict_def keys_dict_from_first_seen)

lemma map_of_tagged:
  "map_of (map (\<lambda>x. (f x, x)) xs) k
     = (case filter (\<lambda>x. f x = k) xs of [] \<Rightarrow> None | x # _ \<Rightarrow> Some x)"
  by (induction xs) auto

lemma map_of_rev_zip_last:
  "map_of (rev (zip (map f xs) xs)) k
     = (if k \<in> f ` set xs then Some (last (filter (\<lambda>x. f x = k) xs)) else None)"
proof -
  have z: "rev (zip (map f xs) xs) = map (\<lambda>x. (f x, x)) (rev xs)"
    by (simp add: zip_map1 zip_same_conv_map rev_map)
  show ?thesis
  proof (cases "filter (\<lambda>x. f x = k) xs = []")
    case True
    then have "k \<notin> f ` set xs" by (auto simp: filter_empty_conv)
    with True show ?thesis by (simp add: z map_of_tagged rev_filter [symmetric])
  next
    case False
    then have "k \<in> f ` set xs" by (auto simp: filter_empty_conv)
    moreover from False obtain y ys where "rev (filter (\<lambda>x. f x = k) xs) = y # ys"
      by (cases "rev (filter (\<lambda>x. f x = k) xs)") auto
    moreover from this have "last (filter (\<lambda>x. f x = k) xs) = y"
      by (metis last_rev list.sel(1) rev_rev_ident)
    ultimately show ?thesis by (simp add: z map_of_tagged rev_filter [symmetric])
  qed
qed

lemma dict_items: "distinct (map fst d) \<Longrightarrow> map (\<lambda>k. (k, the (map_of d k))) (map fst d) = d"
proof (induction d)
  case Nil
  show ?case by simp
next
  case (Cons p d)
  then have "map (\<lambda>k. (k, the (map_of (p # d) k))) (map fst d)
      = map (\<lambda>k. (k, the (map_of d k))) (map fst d)"
    by (intro map_cong) (auto simp: image_iff)
  with Cons show ?case by simp
qed

lemma tracks_by_id:
  "dict (zip (map track_id cur_tracks) cur_tracks)
     = map (\<lambda>tid. (tid, last_box cur_tracks tid)) (first_seen (map track_id cur_tracks))"
proof -
  let ?d = "dict (zip (map track_id cur_tracks) cur_tracks)"
  have k: "map fst ?d = first_seen (map track_id cur_tracks)"
    by (simp add: keys_dict)
  have "?d = map (\<lambda>k. (k, the (map_of ?d k))) (map fst ?d)"
    using dict_items [OF distinct_keys_dict, of "zip (map track_id cur_tracks) cur_tracks"]
    by (rule sym)
  also have "\<dots> = map (\<lambda>tid. (tid, last_box cur_tracks tid)) (first_seen (map track_id cur_tracks))"
    unfolding k
    by (rule map_cong) (auto simp: set_first_seen map_of_dict map_of_rev_zip_last last_box_def)
  finally show ?thesis .
qed

lemma draw_items_calls:
  "fst ` set items \<subseteq> fst ` set color_map \<Longrightarrow>
   draw_items getTextSize im items color_map
     = Inr (im\<lparr>drawn := drawn im @
              concat (map (\<lambda>(tid, bb). box_calls getTextSize color_map tid bb) items)\<rparr>)"
proof (induction items arbitrary: im)
  case Nil
  show ?case by simp
next
  case (Cons p items)
  obtain tid bb where p: "p = (tid, bb)" by (cases p)
  with Cons.prems have "tid \<in> fst ` set color_map" by simp
  then obtain col where col: "dict_get color_map tid = Some col"
    unfolding dict_get_def by (metis domD dom_map_of_conv_image_fst)
  from Cons.prems have "fst ` set items \<subseteq> fst ` set color_map" by simp
  note ih = Cons.IH [OF this]
  show ?case
    by (simp add: p col ih box_calls_def rectangle_def putText_def Let_def)
qed

lemma draw_boxes_annotated:
  assumes "track_id ` set cur_tracks \<subseteq> fst ` set color_map"
  shows "draw_boxes getTextSize im cur_tracks color_map
           = Inr (annotated getTextSize color_map im cur_tracks)"
proof -
  let ?order = "first_seen (map track_id cur_tracks)"
  let ?items = "map (\<lambda>tid. (tid, last_box cur_tracks tid)) ?order"
  have "fst ` set ?items = set ?order" by (force simp: image_iff)
  with assms have "fst ` set ?items \<subseteq> fst ` set color_map" by (simp add: set_first_seen)
  from draw_items_calls [OF this, of getTextSize im]
  show ?thesis
    by (simp add: draw_boxes_def tracks_by_id annotated_def comp_def)
qed

lemma annotated_no_boxes: "annotated getTextSize color_map im [] = im"
  by (simp add: annotated_def)



section \<open>Facts about the frame loop\<close>

lemma length_annotated_frames:
  "length (annotated_frames getTextSize results color_map ims frame_idx) = length ims"
  by (induction ims arbitrary: frame_idx) simp_all

lemma annotated_frames_nth:
  "i < length ims \<Longrightarrow>
   annotated_frames getTextSize results color_map ims frame_idx ! i
     = annotated getTextSize color_map (ims ! i)
         (case dict_get results (frame_idx + int i) of None \<Rightarrow> [] | Some cur_tracks \<Rightarrow> cur_tracks)"
proof (induction ims arbitrary: frame_idx i)
  case Nil
  then show ?case by simp
next
  case (Cons im ims)
  show ?case
  proof (cases i)
    case 0
    then show ?thesis by simp
  next
    case (Suc j)
    with Cons.prems have "j < length ims" by simp
    from Cons.IH [OF this, of "frame_idx + 1"] Suc show ?thesis
      by (simp add: add.assoc)
  qed
qed

lemma write_frames_step:
  assumes "dict_get results frame_idx = Some cur_tracks"
    and "track_id ` set cur_tracks \<subseteq> fst ` set color_map"
  shows "write_frames getTextSize results color_map (im # rest) frame_idx writer
           = write_frames getTextSize results color_map rest (frame_idx + 1)
               (writer_write writer (annotated getTextSize color_map im cur_tracks))"
proof (cases "cur_tracks = []")
  case True
  with assms(1) show ?thesis by (simp add: annotated_no_boxes)
next
  case False
  with assms(1) draw_boxes_annotated [OF assms(2), of getTextSize im] show ?thesis by simp
qed

lemma write_frames_append:
  assumes "\<forall>j<length pre. \<exists>cur_tracks. dict_get results (frame_idx + int j) = Some cur_tracks
              \<and> track_id ` set cur_tracks \<subseteq> fst ` set color_map"
  shows "write_frames getTextSize results color_map (pre @ post) frame_idx writer
           = write_frames getTextSize results color_map post (frame_idx + int (length pre))
               (writer\<lparr>written := written writer
                   @ annotated_frames getTextSize results color_map pre frame_idx\<rparr>)"
  using assms
proof (induction pre arbitrary: frame_idx writer)
  case Nil
  show ?case by simp
next
  case (Cons im pre)
  from Cons.prems [rule_format, of 0] obtain cur_tracks
    where ts: "dict_get results frame_idx = Some cur_tracks"
      "track_id ` set cur_tracks \<subseteq> fst ` set color_map"
    by auto
  have rest: "\<forall>j<length pre. \<exists>cur_tracks. dict_get results (frame_idx + 1 + int j) = Some cur_tracks
              \<and> track_id ` set cur_tracks \<subseteq> fst ` set color_map"
  proof (intro allI impI)
    fix j assume "j < length pre"
    then have "Suc j < length (im # pre)" by simp
    from Cons.prems [rule_format, OF this] show "\<exists>cur_tracks.
        dict_get results (frame_idx + 1 + int j) = Some cur_tracks
        \<and> track_id ` set cur_tracks \<subseteq> fst ` set color_map"
      by (simp add: ac_simps)
  qed
  have "write_frames getTextSize results color_map ((im # pre) @ post) frame_idx writer
      = write_frames getTextSize results color_map (pre @ post) (frame_idx + 1)
          (writer_write writer (annotated getTextSize color_map im cur_tracks))"
    using write_frames_step [OF ts] by simp
  also note Cons.IH [OF rest]
  finally show ?case
    by (simp add: ts(1) writer_write_def ac_simps)
qed

lemma write_frames_grows:
  "\<exists>ext. snd (write_frames getTextSize results color_map ims frame_idx writer)
          = writer\<lparr>written := written writer @ ext\<rparr>"
proof (induction ims arbitrary: frame_idx writer)
  case Nil
  have "writer = writer\<lparr>written := written writer @ []\<rparr>" by simp
  then have "\<exists>ext. writer = writer\<lparr>written := written writer @ ext\<rparr>" ..
  then show ?case by simp
next
  case (Cons im ims)
  have grow: "\<exists>ext. snd (write_frames getTextSize results color_map ims (frame_idx + 1)
                (writer_write writer x)) = writer\<lparr>written := written writer @ ext\<rparr>" for x
  proof -
    from Cons [of "frame_idx + 1" "writer_write writer x"] obtain ext
      where "snd (write_frames getTextSize results color_map ims (frame_idx + 1)
                (writer_write writer x))
             = (writer_write writer x)\<lparr>written := written (writer_write writer x) @ ext\<rparr>"
      by blast
    then have "snd (write_frames getTextSize results color_map ims (frame_idx + 1)
                (writer_write writer x)) = writer\<lparr>written := written writer @ (x # ext)\<rparr>"
      by (simp add: writer_write_def)
    then show ?thesis by blast
  qed
  have "writer = writer\<lparr>written := written writer @ []\<rparr>" by simp
  then have stay: "\<exists>ext. writer = writer\<lparr>written := written writer @ ext\<rparr>" ..
  show ?case
    using grow stay by (simp split: option.split sum.split)
qed

section \<open>Facts about the pipeline\<close>

lemma py_int_of_int: "py_int (of_int n) = n"
  by (simp add: py_int_def)

lemma sorted_results:
  assumes "distinct (map fst results)"
  shows "dict (sort_key fst results) = sort_key fst results"
    and "dict_get (sort_key fst results) k = dict_get results k"
proof -
  have d: "distinct (map fst (sort_key fst results))"
    using assms by (simp add: distinct_map)
  then show "dict (sort_key fst results) = sort_key fst results"
    by (rule dict_distinct)
  have "map_of (sort_key fst results) = map_of results"
    using d assms by (simp add: map_of_inject_set)
  then show "dict_get (sort_key fst results) k = dict_get results k"
    by (simp add: dict_get_def)
qed

lemma colors_cover:
  assumes "is_set_order set_order" and "dict_get results k = Some cur_tracks"
  shows "track_id ` set cur_tracks
           \<subseteq> fst ` set (compute_color_for_all_labels
                             (set_order (map track_id (concat (values_of results)))))"
proof -
  let ?ids = "set_order (map track_id (concat (values_of results)))"
  have "fst ` set (compute_color_for_all_labels ?ids) = set (map fst (zip ?ids (color_list_of ?ids)))"
    by (simp add: compute_color_for_all_labels_def set_keys_dict)
  also have "\<dots> = set ?ids" by (simp add: length_color_list_of)
  also have "\<dots> = set (map track_id (concat (values_of results)))"
    using assms(1) by (simp add: is_set_order_def)
  finally have k: "fst ` set (compute_color_for_all_labels ?ids)
      = set (map track_id (concat (values_of results)))" .
  from assms(2) have "(k, cur_tracks) \<in> set results"
    by (auto simp: dict_get_def dest: map_of_SomeD)
  then have "cur_tracks \<in> set (values_of results)"
    by (force simp: values_of_def)
  then show ?thesis unfolding k by auto
qed

lemma grabbed_frames:
  "grabbed (Some v) ! i = \<lparr>raw = frames v ! i, drawn = []\<rparr>" if "i < length (frames v)"
  using that by (simp add: grabbed_def)

lemma length_grabbed: "length (grabbed (Some v)) = length (frames v)"
  by (simp add: grabbed_def)

text \<open>
  The run of \<open>_write_video\<close> on a video that opens, as long as the frame indices are
  keys of \<open>results\<close>: the first \<open>n\<close> frames are written, annotated, and the loop goes
  on with frame \<open>n\<close>.
\<close>

lemma write_video_prefix:
  assumes so: "is_set_order set_order"
    and op: "VideoCapture_open fs input_video = Some v"
    and n: "n \<le> length (frames v)"
    and present: "\<forall>j<n. dict_get results (int j) \<noteq> None"
  shows "write_video set_order getTextSize fs results input_video output_video
           = write_frames getTextSize results
               (compute_color_for_all_labels (set_order (map track_id (concat (values_of results)))))
               (drop n (grabbed (Some v))) (int n)
               \<lparr>filename = output_video,
                 fourcc = VideoWriter_fourcc CHR ''M'' CHR ''P'' CHR ''4'' CHR ''V'',
                 w_fps = py_int (fps v),
                 frameSize = (frame_width v, frame_height v),
                 written = annotated_frames getTextSize results
                   (compute_color_for_all_labels
                      (set_order (map track_id (concat (values_of results)))))
                   (take n (grabbed (Some v))) 0\<rparr>"
proof -
  let ?cm = "compute_color_for_all_labels (set_order (map track_id (concat (values_of results))))"
  let ?pre = "take n (grabbed (Some v))"
  let ?post = "drop n (grabbed (Some v))"
  have len: "length ?pre = n" using n by (simp add: length_grabbed)
  have "\<forall>j<length ?pre. \<exists>cur_tracks. dict_get results (0 + int j) = Some cur_tracks
              \<and> track_id ` set cur_tracks \<subseteq> fst ` set ?cm"
  proof (intro allI impI)
    fix j assume "j < length ?pre"
    with len present obtain cur_tracks where "dict_get results (int j) = Some cur_tracks"
      by auto
    with colors_cover [OF so this] show "\<exists>cur_tracks. dict_get results (0 + int j) = Some cur_tracks
              \<and> track_id ` set cur_tracks \<subseteq> fst ` set ?cm" by simp
  qed
  from write_frames_append [OF this, of getTextSize ?post] len
  show ?thesis
    by (simp add: write_video_def Let_def op get_CAP_PROP_FRAME_WIDTH_def
        get_CAP_PROP_FRAME_HEIGHT_def get_CAP_PROP_FPS_def py_int_of_int)
qed


lemma plot_results_sorted:
  assumes "distinct (map fst results)"
  shows "plot_results set_order getTextSize fs results input_video output_video
     = (case write_video set_order getTextSize fs (sort_key fst results) input_video output_video of
          (Some e, writer) \<Rightarrow> (Inl e, writer, [])
        | (None, writer) \<Rightarrow>
            (Inr output_video, writer, [''Output saved to '' @ output_video @ ''.'']))"
  by (simp add: plot_results_def sorted_results(1) [OF assms])

lemma writer_of_plot_results:
  assumes "distinct (map fst results)"
  shows "fst (snd (plot_results set_order getTextSize fs results input_video output_video))
     = snd (write_video set_order getTextSize fs (sort_key fst results) input_video output_video)"
  by (simp add: plot_results_sorted [OF assms] split: prod.split option.split)



section \<open>Facts about the sample inputs\<close>

lemma str_7: "str 7 = ''7''"
  by code_simp

lemma is_set_order_remdups: "is_set_order remdups"
  by (simp add: is_set_order_def)

lemma open_sample: "VideoCapture_open sample_fs ''in.mp4'' = Some sample_video"
  by (simp add: VideoCapture_open_def sample_fs_def)



lemma distinct_sample_results: "distinct (keys sample_results)"
  by (simp add: keys_def sample_results_def)



section \<open>Properties of \<open>_draw_boxes\<close>\<close>

text \<open>
  Claim C6: when the colour map has a colour for every identifier of the frame's boxes,
  \<open>_draw_boxes\<close> succeeds and draws one rectangle and one label for each distinct
  identifier, in the order in which the identifiers first occur, with the coordinates of
  the last box in the sequence that has the identifier; the earlier boxes of an
  identifier are not drawn.
\<close>

theorem last_box_of_identifier_is_drawn:
  assumes "track_id ` set cur_tracks \<subseteq> set (keys color_map)"
  shows "draw_boxes getTextSize im cur_tracks color_map
           = Inr (im\<lparr>drawn := drawn im @
                   concat (map (\<lambda>tid. box_calls getTextSize color_map tid
                                   (last (filter (\<lambda>bb. track_id bb = tid) cur_tracks)))
                             (first_seen (map track_id cur_tracks)))\<rparr>)
         \<and> distinct (first_seen (map track_id cur_tracks))
         \<and> set (first_seen (map track_id cur_tracks)) = track_id ` set cur_tracks"
proof -
  from assms have "track_id ` set cur_tracks \<subseteq> fst ` set color_map"
    by (simp add: keys_def)
  from draw_boxes_annotated [OF this, of getTextSize im] show ?thesis
    by (simp add: annotated_def last_box_def distinct_first_seen set_first_seen)
qed

theorem last_box_of_identifier_is_drawn_witness:
  "track_id ` set [box_a, box_b] \<subseteq> set (keys [(7, (14, 254, 30))])
   \<and> draw_boxes sample_getTextSize \<lparr>raw = 100 :: nat, drawn = []\<rparr> [box_a, box_b]
         [(7, (14, 254, 30))]
       = Inr \<lparr>raw = 100, drawn = [Rectangle (12, 20) (30, 41) (14, 254, 30) 3,
                                   PutText ''id_7'' (12, 12) 0 1 (14, 254, 30) 3]\<rparr>"
proof -
  have h: "track_id ` set [box_a, box_b] \<subseteq> set (keys [(7, (14, 254, 30))])"
    by (simp add: keys_def box_a_def box_b_def)
  from last_box_of_identifier_is_drawn [OF h, of sample_getTextSize "\<lparr>raw = 100, drawn = []\<rparr>"] h
  show ?thesis
    by (simp add: box_a_def box_b_def box_calls_def dict_get_def py_round_def str_7
        sample_getTextSize_def FONT_HERSHEY_SIMPLEX_def)
qed

section \<open>Properties of \<open>plot_results\<close>\<close>










text \<open>
  Claim C8: \<open>_draw_boxes\<close> with an empty box list returns the frame as it is; and in a
  run of the pipeline, a frame that the loop reaches and whose box list is empty is
  written to the sink as it was decoded.
\<close>

theorem empty_box_list_leaves_frame:
  assumes so: "is_set_order set_order"
    and wf: "distinct (keys results)"
    and op: "VideoCapture_open fs input_video = Some v"
    and i: "i < length (frames v)"
    and present: "\<forall>j<i. dict_get results (int j) \<noteq> None"
    and empty: "dict_get results (int i) = Some []"
  shows "draw_boxes getTextSize im [] color_map = Inr im
         \<and> i < length (written (fst (snd
               (plot_results set_order getTextSize fs results input_video output_video))))
         \<and> written (fst (snd
               (plot_results set_order getTextSize fs results input_video output_video))) ! i
             = \<lparr>raw = frames v ! i, drawn = []\<rparr>"
proof -
  let ?R = "sort_key fst results"
  let ?cm = "compute_color_for_all_labels (set_order (map track_id (concat (values_of ?R))))"
  let ?G = "grabbed (Some v)"
  let ?A = "annotated_frames getTextSize ?R ?cm (take (Suc i) ?G) 0"
  from wf have d: "distinct (map fst results)" by (simp add: keys_def)
  from i have n: "Suc i \<le> length (frames v)" by simp
  have p: "\<forall>j<Suc i. dict_get ?R (int j) \<noteq> None"
    using present empty by (auto simp: sorted_results(2) [OF d] less_Suc_eq)
  have e: "dict_get ?R (0 + int i) = Some []"
    using empty by (simp add: sorted_results(2) [OF d])
  have lenA: "length ?A = Suc i"
    using n by (simp add: length_annotated_frames length_grabbed)
  have "?A ! i = annotated getTextSize ?cm (take (Suc i) ?G ! i) []"
    using annotated_frames_nth [of i "take (Suc i) ?G" getTextSize ?R ?cm 0] n e
    by (simp add: length_grabbed)
  then have Ai: "?A ! i = \<lparr>raw = frames v ! i, drawn = []\<rparr>"
    using i by (simp add: annotated_no_boxes grabbed_frames)
  from write_frames_grows [of getTextSize ?R ?cm "drop (Suc i) ?G" "int (Suc i)"]
    write_video_prefix [OF so op n p, of getTextSize output_video]
  obtain ext where "written (snd (write_video set_order getTextSize fs ?R input_video output_video))
      = ?A @ ext"
    by (metis (no_types, lifting) VideoWriter.select_convs(5) VideoWriter.update_convs(5))
  with lenA Ai have
    "i < length (written (snd (write_video set_order getTextSize fs ?R input_video output_video)))"
    "written (snd (write_video set_order getTextSize fs ?R input_video output_video)) ! i
       = \<lparr>raw = frames v ! i, drawn = []\<rparr>"
    by (simp_all add: nth_append)
  moreover have "draw_boxes getTextSize im [] color_map = Inr im"
    by (simp add: draw_boxes_def dict_def)
  ultimately show ?thesis
    by (simp add: writer_of_plot_results [OF d])
qed

theorem empty_box_list_leaves_frame_witness:
  "is_set_order remdups \<and> distinct (keys sample_results)
   \<and> VideoCapture_open sample_fs ''in.mp4'' = Some sample_video
   \<and> 1 < length (frames sample_video)
   \<and> dict_get sample_results 0 \<noteq> None \<and> dict_get sample_results 1 = Some []
   \<and> draw_boxes sample_getTextSize \<lparr>raw = 100 :: nat, drawn = []\<rparr> [] [] 
       = Inr \<lparr>raw = 100, drawn = []\<rparr>
   \<and> written (fst (snd (plot_results remdups sample_getTextSize sample_fs sample_results
         ''in.mp4'' ''out.mp4''))) ! 1 = \<lparr>raw = 101, drawn = []\<rparr>"
proof -
  have i: "1 < length (frames sample_video)" by (simp add: sample_video_def)
  have p: "\<forall>j<1. dict_get sample_results (int j) \<noteq> None"
    by (simp add: sample_results_def dict_get_def)
  have e: "dict_get sample_results (int 1) = Some []"
    by (simp add: sample_results_def dict_get_def)
  from empty_box_list_leaves_frame [OF is_set_order_remdups distinct_sample_results
      open_sample i p e, of sample_getTextSize "\<lparr>raw = 100 :: nat, drawn = []\<rparr>" "[]" "''out.mp4''"]
  have "draw_boxes sample_getTextSize \<lparr>raw = 100 :: nat, drawn = []\<rparr> [] [] 
       = Inr \<lparr>raw = 100, drawn = []\<rparr>
   \<and> written (fst (snd (plot_results remdups sample_getTextSize sample_fs sample_results
         ''in.mp4'' ''out.mp4''))) ! 1 = \<lparr>raw = 101, drawn = []\<rparr>"
    by (simp add: sample_video_def)
  with i p e is_set_order_remdups distinct_sample_results open_sample show ?thesis by simp
qed

end
